theory Spec2Isabelle
  imports Complex_Main "HOL-Library.Multiset"
begin

section \<open>Numbers, array reads and sorting\<close>

text \<open>
  The panel (\<^verbatim>\<open>src/my-panel.tsx\<close>) computes with JavaScript numbers. The numbers it
  is given (durations, instants, samples) are modelled as rationals: finite values, with
  \<^verbatim>\<open>NaN\<close> and the infinities left out. Comparisons, sums and means of such values are
  exact. Where the source rounds a computed quotient to an integer with
  \<^verbatim>\<open>Math.round\<close> (the three percentages and the commits per minute, lines 141, 151,
  163 and 164), a rounding error of the operations before it can change the integer, and
  these operations are modelled as the IEEE 754 binary64 operations they are. Counts and
  lengths are natural numbers. A value that may be \<^verbatim>\<open>null\<close> or \<^verbatim>\<open>undefined\<close> is an
  \<open>option\<close>, with \<open>None\<close> for both (the source only ever tests them with
  \<^verbatim>\<open>??\<close>, \<^verbatim>\<open>?.\<close>, \<^verbatim>\<open>||\<close>, \<^verbatim>\<open>== null\<close> and \<^verbatim>\<open>!\<close>, which do not tell
  them apart).
\<close>

text \<open>\<^verbatim>\<open>Math.round\<close> rounds to the nearest integer, halves towards plus infinity.\<close>

definition Math_round :: "rat \<Rightarrow> int" where
  "Math_round x = \<lfloor>x + 1 / 2\<rfloor>"

text \<open>
  Binary64 arithmetic gives the exact result rounded to the nearest representable value,
  ties to the value with an even significand. \<open>round_even\<close> rounds to the nearest
  integer in this way; \<open>binary_exponent x\<close> is the \<open>e\<close> with \<open>2^e \<le> x < 2^(e+1)\<close> for
  a positive \<open>x\<close>. A value with the exponent \<open>e\<close> has 53 significant bits: it is a
  multiple of \<open>2^(e-52)\<close>; below \<open>2^(-1022)\<close> the values are the multiples of
  \<open>2^(-1074)\<close> (the subnormal numbers). \<open>binary64\<close> is this rounding without the upper
  limit of the exponent, which \<open>fl\<close> below adds.
\<close>

definition round_even :: "rat \<Rightarrow> int" where
  "round_even q =
     (let f = \<lfloor>q\<rfloor>; d = q - of_int f
      in if d < 1 / 2 then f else if 1 / 2 < d then f + 1
         else if even f then f else f + 1)"

function binary_exponent :: "rat \<Rightarrow> int" where
  "binary_exponent x =
     (if 2 \<le> x then binary_exponent (x / 2) + 1
      else if 0 < x \<and> x < 1 then binary_exponent (2 * x) - 1
      else 0)"
  by pat_completeness auto
termination
proof (relation "measure (\<lambda>x. if 1 \<le> x then nat \<lfloor>x\<rfloor> else nat \<lceil>1 / x\<rceil>)")
  show "wf (measure (\<lambda>x::rat. if 1 \<le> x then nat \<lfloor>x\<rfloor> else nat \<lceil>1 / x\<rceil>))" by simp
next
  fix x :: rat assume x: "2 \<le> x"
  have "\<lfloor>x / 2\<rfloor> \<le> \<lfloor>x - 1\<rfloor>" using x by (intro floor_mono) simp
  then have "\<lfloor>x / 2\<rfloor> < \<lfloor>x\<rfloor>" by simp
  moreover have "0 < \<lfloor>x\<rfloor>" using x by simp
  ultimately show "(x / 2, x) \<in> measure (\<lambda>x. if 1 \<le> x then nat \<lfloor>x\<rfloor> else nat \<lceil>1 / x\<rceil>)"
    using x by simp
next
  fix x :: rat assume "\<not> 2 \<le> x" and x: "0 < x \<and> x < 1"
  then have inv: "1 < 1 / x" by simp
  then have c2: "2 \<le> \<lceil>1 / x\<rceil>" by (simp add: le_ceiling_iff)
  show "(2 * x, x) \<in> measure (\<lambda>x. if 1 \<le> x then nat \<lfloor>x\<rfloor> else nat \<lceil>1 / x\<rceil>)"
  proof (cases "1 \<le> 2 * x")
    case True
    have "2 * x < 2" using x by simp
    then have "\<lfloor>2 * x\<rfloor> < 2" by (simp add: floor_less_iff)
    with c2 have "nat \<lfloor>2 * x\<rfloor> < nat \<lceil>1 / x\<rceil>" by linarith
    with True x show ?thesis by simp
  next
    case False
    have "1 / (2 * x) \<le> of_int \<lceil>1 / x\<rceil> / 2"
      using le_of_int_ceiling [of "1 / x"] x by (simp add: field_simps)
    also have "\<dots> \<le> of_int (\<lceil>1 / x\<rceil> - 1)" using c2 by simp
    finally have "\<lceil>1 / (2 * x)\<rceil> \<le> \<lceil>1 / x\<rceil> - 1" by (rule ceiling_le)
    with c2 have "nat \<lceil>1 / (2 * x)\<rceil> < nat \<lceil>1 / x\<rceil>" by linarith
    with False x show ?thesis by simp
  qed
qed

declare binary_exponent.simps [simp del]

definition pos_round :: "rat \<Rightarrow> rat" where
  "pos_round a =
     (let e = max (binary_exponent a) (- 1022); u = 2 powi (e - 52)
      in of_int (round_even (a / u)) * u)"

definition binary64 :: "rat \<Rightarrow> rat" where
  "binary64 x = (if x = 0 then 0 else if 0 < x then pos_round x else - pos_round (- x))"

text \<open>
  A computed number: finite, or one of the infinities that an operation on finite numbers
  overflows to (a rounded magnitude of \<open>2^1024\<close> or more, that is, with a binary
  exponent of 1024 or more), or \<^verbatim>\<open>NaN\<close>. The sign of a
  zero is not modelled. \<open>fl\<close> is the result of an operation whose exact value is the
  argument; then the difference of two numbers, the quotient of a number by a computed
  number, the product of a computed number with a number, the test \<^verbatim>\<open>d > 0\<close> and
  \<^verbatim>\<open>Math.round\<close> of a computed number.
\<close>

datatype double = Finite rat | PosInf | NegInf | NaN

definition fl :: "rat \<Rightarrow> double" where
  "fl x =
     (let r = binary64 x
      in if r = 0 then Finite 0
         else if 1024 \<le> binary_exponent \<bar>r\<bar> then (if 0 < r then PosInf else NegInf)
         else Finite r)"

definition fsub :: "rat \<Rightarrow> rat \<Rightarrow> double" where
  "fsub a b = fl (a - b)"

definition fdiv :: "rat \<Rightarrow> double \<Rightarrow> double" where
  "fdiv a d =
     (case d of
        Finite v \<Rightarrow>
          if v = 0 then (if 0 < a then PosInf else if a < 0 then NegInf else NaN)
          else fl (a / v)
      | PosInf \<Rightarrow> Finite 0
      | NegInf \<Rightarrow> Finite 0
      | NaN \<Rightarrow> NaN)"

definition fmul :: "double \<Rightarrow> rat \<Rightarrow> double" where
  "fmul d c =
     (case d of
        Finite v \<Rightarrow> fl (v * c)
      | PosInf \<Rightarrow> if 0 < c then PosInf else if c < 0 then NegInf else NaN
      | NegInf \<Rightarrow> if 0 < c then NegInf else if c < 0 then PosInf else NaN
      | NaN \<Rightarrow> NaN)"

definition gt_zero :: "double \<Rightarrow> bool" where
  "gt_zero d = (case d of Finite v \<Rightarrow> 0 < v | PosInf \<Rightarrow> True | NegInf \<Rightarrow> False | NaN \<Rightarrow> False)"

definition Math_round_double :: "double \<Rightarrow> double" where
  "Math_round_double d = (case d of Finite v \<Rightarrow> Finite (of_int (Math_round v)) | _ \<Rightarrow> d)"

text \<open>
  \<^verbatim>\<open>xs[i]\<close> for a number \<^verbatim>\<open>i\<close>: the element when \<^verbatim>\<open>i\<close> is an integer within
  range, \<^verbatim>\<open>undefined\<close> otherwise.
\<close>

definition js_index :: "'a list \<Rightarrow> rat \<Rightarrow> 'a option" where
  "js_index xs i =
     (if 0 \<le> i \<and> i < of_nat (length xs) \<and> of_int \<lfloor>i\<rfloor> = i
      then Some (xs ! nat \<lfloor>i\<rfloor>) else None)"

text \<open>
  \<^verbatim>\<open>Array.prototype.sort(cmp)\<close> is a stable sort (ECMAScript 2019): an element
  \<^verbatim>\<open>a\<close> is placed before \<^verbatim>\<open>b\<close> when \<^verbatim>\<open>cmp(a, b) < 0\<close>, and elements that
  compare equal keep their order. It is modelled as a stable insertion sort driven by the
  comparator; \<^verbatim>\<open>slice(0, k)\<close> of the copy is \<open>take k\<close>.
\<close>

fun js_insert :: "('a \<Rightarrow> 'a \<Rightarrow> rat) \<Rightarrow> 'a \<Rightarrow> 'a list \<Rightarrow> 'a list" where
  "js_insert cmp x [] = [x]"
| "js_insert cmp x (y # ys) =
     (if cmp x y \<le> 0 then x # y # ys else y # js_insert cmp x ys)"

definition js_sort :: "('a \<Rightarrow> 'a \<Rightarrow> rat) \<Rightarrow> 'a list \<Rightarrow> 'a list" where
  "js_sort cmp xs = foldr (js_insert cmp) xs []"

text \<open>
  A \<^verbatim>\<open>Map<string, V>\<close> iterates in the order of first insertion: an association list
  in which \<^verbatim>\<open>set\<close> overwrites the value of a key in place and appends a new key.
\<close>

definition map_get :: "(string \<times> 'v) list \<Rightarrow> string \<Rightarrow> 'v option" where
  "map_get m k = map_of m k"

fun map_set :: "(string \<times> 'v) list \<Rightarrow> string \<Rightarrow> 'v \<Rightarrow> (string \<times> 'v) list" where
  "map_set [] k v = [(k, v)]"
| "map_set ((k', v') # m) k v =
     (if k' = k then (k, v) # m else (k', v') # map_set m k v)"

section \<open>Data model\<close>

record updater =
  displayName :: "string option"

record commit =
  timestamp :: "rat option"
  duration :: rat
  effectDuration :: "rat option"
  passiveEffectDuration :: "rat option"
  priority :: "string option"
  updaters :: "updater list option"

text \<open>
  The type \<^verbatim>\<open>ProfilerJSON\<close> declares \<^verbatim>\<open>commitData?: Commit[]\<close>, but
  \<^verbatim>\<open>parseCommits\<close> tests the value with \<^verbatim>\<open>Array.isArray\<close>; so a present
  \<^verbatim>\<open>commitData\<close> is either an array of commits or some other value.
\<close>

datatype commitData_value = CommitArray "commit list" | NotAnArray

record profiler_root =
  commitData :: "commitData_value option"
  displayName_root :: "string option"

text \<open>
  An entry of \<^verbatim>\<open>dataForRoots\<close> may be \<^verbatim>\<open>null\<close> (\<open>None\<close>), which \<^verbatim>\<open>first?.\<close>
  allows for. A \<^verbatim>\<open>dataForRoots\<close> that is present but not an array is outside the model.
\<close>

record ProfilerJSON =
  dataForRoots :: "profiler_root option list option"
  profilingStartTime :: "rat option"
  profilingEndTime :: "rat option"
  version :: "rat option"

section \<open>Commit extractor\<close>

text \<open>
  \<^verbatim>\<open>parseCommits(json)\<close>, lines 52-58. The argument may be null (\<^verbatim>\<open>json?.\<close>),
  \<^verbatim>\<open>roots[0]\<close> of an empty array is \<^verbatim>\<open>undefined\<close>.
\<close>

definition parseCommits :: "ProfilerJSON option \<Rightarrow> commit list" where
  "parseCommits json =
     (let roots = (case json of None \<Rightarrow> []
                   | Some j \<Rightarrow> (case dataForRoots j of None \<Rightarrow> [] | Some rs \<Rightarrow> rs));
          first = (case roots of [] \<Rightarrow> None | r # _ \<Rightarrow> r);
          commits = (case first of None \<Rightarrow> CommitArray []
                     | Some r \<Rightarrow> (case commitData r of None \<Rightarrow> CommitArray [] | Some v \<Rightarrow> v))
      in case commits of CommitArray cs \<Rightarrow> cs | NotAnArray \<Rightarrow> [])"

section \<open>Aggregation\<close>

text \<open>
  The variables of the loop of \<^verbatim>\<open>stats\<close> (lines 110-131). The suffix \<open>_v\<close> keeps
  them apart from the fields of the result, which have the same names in the source.
\<close>

record loop_vars =
  janky_v :: nat
  worst_v :: "commit option"
  updaterCounts :: "(string \<times> nat) list"
  updaterWeighted :: "(string \<times> rat) list"
  durations :: "rat list"
  effectHeavy :: nat
  passiveHeavy :: nat
  maxPassive_v :: rat

definition loop_init :: loop_vars where
  "loop_init = \<lparr>janky_v = 0, worst_v = None, updaterCounts = [], updaterWeighted = [],
                 durations = [], effectHeavy = 0, passiveHeavy = 0, maxPassive_v = 0\<rparr>"

text \<open>\<^verbatim>\<open>x ?? 0\<close> and \<^verbatim>\<open>x || 0\<close> on an optional number.\<close>

definition or_zero :: "rat option \<Rightarrow> rat" where
  "or_zero x = (case x of None \<Rightarrow> 0 | Some v \<Rightarrow> v)"

text \<open>The body of the inner loop over \<^verbatim>\<open>c.updaters ?? []\<close>, lines 127-129.\<close>

definition updater_step :: "rat \<Rightarrow> loop_vars \<Rightarrow> updater \<Rightarrow> loop_vars" where
  "updater_step d s u =
     (let name = (case displayName u of None \<Rightarrow> ''(anonymous)''
                  | Some n \<Rightarrow> if n = [] then ''(anonymous)'' else n)
      in s\<lparr>updaterCounts :=
              map_set (updaterCounts s) name
                ((case map_get (updaterCounts s) name of None \<Rightarrow> 0 | Some k \<Rightarrow> k) + 1),
            updaterWeighted :=
              map_set (updaterWeighted s) name
                ((case map_get (updaterWeighted s) name of None \<Rightarrow> 0 | Some w \<Rightarrow> w) + d)\<rparr>)"

text \<open>The body of the loop over the commits, lines 120-130.\<close>

definition commit_step :: "rat \<Rightarrow> loop_vars \<Rightarrow> commit \<Rightarrow> loop_vars" where
  "commit_step budget s c =
     (let s1 = (case worst_v s of
                  None \<Rightarrow> s\<lparr>worst_v := Some c\<rparr>
                | Some w \<Rightarrow> if duration c > duration w then s\<lparr>worst_v := Some c\<rparr> else s);
          s2 = (if duration c > budget then s1\<lparr>janky_v := janky_v s1 + 1\<rparr> else s1);
          s3 = s2\<lparr>durations := durations s2 @ [duration c]\<rparr>;
          s4 = (if or_zero (effectDuration c) > budget * (1 / 2)
                then s3\<lparr>effectHeavy := effectHeavy s3 + 1\<rparr> else s3);
          s5 = (if or_zero (passiveEffectDuration c) > budget * (1 / 2)
                then s4\<lparr>passiveHeavy := passiveHeavy s4 + 1\<rparr> else s4);
          s6 = (if or_zero (passiveEffectDuration c) > maxPassive_v s5
                then s5\<lparr>maxPassive_v := or_zero (passiveEffectDuration c)\<rparr> else s5)
      in foldl (updater_step (duration c)) s6
           (case updaters c of None \<Rightarrow> [] | Some us \<Rightarrow> us))"

record aggregate_stats =
  total_count :: nat
  janky :: nat
  jankRate :: int
  worst :: commit
  topUpdaters :: "(string \<times> nat) list"
  avg :: rat
  median :: "rat option"
  p95 :: "rat option"
  culpritsByDuration :: "(string \<times> rat) list"
  effectShare :: int
  passiveShare :: int
  maxPassive :: rat
  perMinute :: "double option"

text \<open>The filter of both rankings: \<^verbatim>\<open>name && name !== '(anonymous)'\<close>.\<close>

definition named :: "string \<times> 'v \<Rightarrow> bool" where
  "named e = (fst e \<noteq> [] \<and> fst e \<noteq> ''(anonymous)'')"

text \<open>
  The median of the sorted durations, line 146. An \<^verbatim>\<open>undefined\<close> operand of the sum
  would give \<^verbatim>\<open>NaN\<close>: \<open>None\<close> here.
\<close>

definition median_of :: "rat list \<Rightarrow> rat option" where
  "median_of sorted_d =
     (let n = length sorted_d
      in if n mod 2 \<noteq> 0 then js_index sorted_d ((of_nat n - 1) / 2)
         else (case (js_index sorted_d (of_nat n / 2 - 1), js_index sorted_d (of_nat n / 2)) of
                 (Some a, Some b) \<Rightarrow> Some ((a + b) / 2)
               | _ \<Rightarrow> None))"

definition p95_of :: "rat list \<Rightarrow> rat option" where
  "p95_of sorted_d =
     js_index sorted_d (of_int \<lfloor>(95 / 100 :: rat) * (of_nat (length sorted_d) - 1)\<rfloor>)"

text \<open>
  The profiling window of line 150,
  \<^verbatim>\<open>(profile?.profilingEndTime ?? 0) - (profile?.profilingStartTime ?? 0)\<close>.
\<close>

definition windowMs :: "ProfilerJSON option \<Rightarrow> double" where
  "windowMs profile =
     fsub (or_zero (case profile of None \<Rightarrow> None | Some p \<Rightarrow> profilingEndTime p))
          (or_zero (case profile of None \<Rightarrow> None | Some p \<Rightarrow> profilingStartTime p))"

text \<open>
  \<^verbatim>\<open>stats\<close>, lines 108-168: \<open>None\<close> is the \<^verbatim>\<open>null\<close> of line 109. The three
  percentages are a quotient of two counts, at most 1, times 100: these operations
  cannot overflow (\<open>percent_no_overflow\<close> below), and their result is a rational. In
  \<^verbatim>\<open>worst: worst!\<close> the \<^verbatim>\<open>!\<close> only asserts to the type checker that the loop has
  set \<^verbatim>\<open>worst\<close>; the model has no commit to put there if it has not, and returns
  \<open>None\<close> in that case (which the loop over a non-empty sequence never reaches).
\<close>

definition stats :: "commit list \<Rightarrow> rat \<Rightarrow> ProfilerJSON option \<Rightarrow> aggregate_stats option" where
  "stats commits budget profile =
     (if length commits = 0 then None
      else
        let s = foldl (commit_step budget) loop_init commits;
            topUpdaters' = take 8 (js_sort (\<lambda>a b. of_nat (snd b) - of_nat (snd a))
                                    (filter named (updaterCounts s)));
            culpritsByDuration' = take 8 (js_sort (\<lambda>a b. snd b - snd a)
                                    (filter named (updaterWeighted s)));
            jankRate' = Math_round
              (binary64 (binary64 (of_nat (janky_v s) / of_nat (length commits)) * 100));
            sorted_d = js_sort (\<lambda>a b. a - b) (durations s);
            n = length sorted_d;
            avg' = foldl (\<lambda>a b. a + b) 0 sorted_d / of_nat (max 1 n);
            perMinute' = (if gt_zero (windowMs profile)
                          then Some (Math_round_double
                                 (fmul (fdiv (of_nat (length commits)) (windowMs profile)) 60000))
                          else None)
        in case worst_v s of
             None \<Rightarrow> None
           | Some w \<Rightarrow>
               Some \<lparr>total_count = length commits,
                     janky = janky_v s,
                     jankRate = jankRate',
                     worst = w,
                     topUpdaters = topUpdaters',
                     avg = avg',
                     median = median_of sorted_d,
                     p95 = p95_of sorted_d,
                     culpritsByDuration = culpritsByDuration',
                     effectShare = Math_round
                       (binary64 (binary64 (of_nat (effectHeavy s) / of_nat (length commits)) * 100)),
                     passiveShare = Math_round
                       (binary64 (binary64 (of_nat (passiveHeavy s) / of_nat (length commits)) * 100)),
                     maxPassive = maxPassive_v s,
                     perMinute = perMinute'\<rparr>)"

section \<open>Jank table\<close>

text \<open>A commit with its position, \<^verbatim>\<open>{ ...c, idx: i }\<close>.\<close>

record commit_idx = commit +
  idx :: nat

definition with_idx :: "commit \<Rightarrow> nat \<Rightarrow> commit_idx" where
  "with_idx c i =
     \<lparr>timestamp = timestamp c, duration = duration c, effectDuration = effectDuration c,
      passiveEffectDuration = passiveEffectDuration c, priority = priority c,
      updaters = updaters c, idx = i\<rparr>"

text \<open>\<^verbatim>\<open>commits.map((c, i) => ({ ...c, idx: i }))\<close>, line 172.\<close>

definition indexed :: "commit list \<Rightarrow> commit_idx list" where
  "indexed commits = map (\<lambda>(c, i). with_idx c i) (zip commits [0..<length commits])"

text \<open>\<^verbatim>\<open>jankyCommits\<close>, lines 170-176.\<close>

definition jankyCommits :: "commit list \<Rightarrow> rat \<Rightarrow> commit_idx list" where
  "jankyCommits commits budget =
     take 20 (js_sort (\<lambda>a b. duration b - duration a)
                (filter (\<lambda>c. duration c > budget) (indexed commits)))"

section \<open>Suggestions\<close>

text \<open>The optional \<^verbatim>\<open>metrics\<close> property, whose two fields are optional as well.\<close>

record live_metrics =
  worstFps :: "rat option"
  stallTotalMs :: "rat option"

text \<open>
  The messages of \<^verbatim>\<open>Suggestions\<close>, one constructor for each string literal of
  lines 740-752, in the order of the source; the arguments are the values the template
  strings interpolate (unformatted).
\<close>

datatype suggestion =
    HighJankRate
  | P95ExceedsBudget rat rat
  | LargePassiveEffects
  | AverageCloseToBudget
  | AnonymousUpdaters
  | LowFps rat
  | JsStalls rat
  | TopCulprit string
  | LooksHealthy

text \<open>
  \<^verbatim>\<open>Suggestions\<close>, lines 737-752, in two parts. The first is lines 739-751: \<open>items\<close>
  grows by \<^verbatim>\<open>push\<close>, one rule after the other. A comparison with \<^verbatim>\<open>undefined\<close> is
  false.
\<close>

definition rule_items :: "aggregate_stats \<Rightarrow> rat \<Rightarrow> live_metrics option \<Rightarrow> suggestion list" where
  "rule_items stats' budget metrics =
     (let items0 = [];
          items1 = (if jankRate stats' > 20 then items0 @ [HighJankRate] else items0);
          items2 = (case p95 stats' of
                      None \<Rightarrow> items1
                    | Some p \<Rightarrow> if p > budget then items1 @ [P95ExceedsBudget p budget]
                                else items1);
          items3 = (if or_zero (passiveEffectDuration (worst stats')) > budget * (1 / 2)
                    then items2 @ [LargePassiveEffects] else items2);
          items4 = (if avg stats' > budget * (6 / 10)
                    then items3 @ [AverageCloseToBudget] else items3);
          items5 = (if list_ex (\<lambda>e. fst e = ''(anonymous)'') (topUpdaters stats')
                    then items4 @ [AnonymousUpdaters] else items4);
          items6 = (case (case metrics of None \<Rightarrow> None | Some m \<Rightarrow> worstFps m) of
                      None \<Rightarrow> items5
                    | Some f \<Rightarrow> if f < 50 then items5 @ [LowFps f] else items5);
          items7 = (if or_zero (case metrics of None \<Rightarrow> None | Some m \<Rightarrow> stallTotalMs m) > 200
                    then items6 @ [JsStalls (or_zero (case metrics of None \<Rightarrow> None
                                                     | Some m \<Rightarrow> stallTotalMs m))]
                    else items6);
          items8 = (case culpritsByDuration stats' of
                      [] \<Rightarrow> items7
                    | e # _ \<Rightarrow> items7 @ [TopCulprit (fst e)])
      in items8)"

text \<open>The second part is the fallback of line 752, and the list that is rendered.\<close>

definition Suggestions :: "aggregate_stats \<Rightarrow> rat \<Rightarrow> live_metrics option \<Rightarrow> suggestion list" where
  "Suggestions stats' budget metrics =
     (let items = rule_items stats' budget metrics
      in if length items = 0 then items @ [LooksHealthy] else items)"

section \<open>The panel's state\<close>

text \<open>
  The state variables of \<^verbatim>\<open>Panel\<close> (lines 85-99; \<^verbatim>\<open>isDragging\<close>, which only styles
  the drop zone, is left out) with their initial values.
\<close>

record panel_state =
  profile :: "ProfilerJSON option"
  hz :: nat
  isCapturing :: bool
  fps :: "rat option"
  stallsMs :: "rat option"
  bridgeReady :: bool
  hermesStatus :: "string option"
  devtoolsProfilerReady :: bool
  devtoolsProfiling :: bool
  sessionWorstFps :: "rat option"
  sessionStallTotalMs :: rat


text \<open>The events the panel sends over the bridge.\<close>

datatype sent_event = Start_profiler nat | Stop_profiler nat | Reset_profiler



text \<open>
  The handler of the Clear button, lines 392-404, which sends the reset signal to the
  bridge (the button exists only when there is a client).
\<close>

definition clear_clicked :: "panel_state \<Rightarrow> panel_state \<times> sent_event list" where
  "clear_clicked s =
     (s\<lparr>profile := None, fps := None, stallsMs := None, isCapturing := False,
        hermesStatus := None\<rparr>,
      [Reset_profiler])"

text \<open>
  \<^verbatim>\<open>toggleCapture\<close>, lines 285-329. \<open>client\<close> says whether the bridge client exists;
  \<open>profilingData\<close> is what the profiler store of the React DevTools hook returns when
  profiling stops: \<open>None\<close> when there is no hook, no store, no data, or a call raised.
  Nothing in the panel calls it: the button that did was removed (line 389).
\<close>

definition toggleCapture ::
  "bool \<Rightarrow> ProfilerJSON option \<Rightarrow> panel_state \<Rightarrow> panel_state \<times> sent_event list" where
  "toggleCapture client profilingData s =
     (if \<not> client then (s, [])
      else
        let next = \<not> isCapturing s;
            s1 = s\<lparr>isCapturing := next\<rparr>;
            s2 = (if next then s1\<lparr>sessionWorstFps := None, sessionStallTotalMs := 0\<rparr> else s1);
            s3 = (if next then s2
                  else (case profilingData of None \<Rightarrow> s2 | Some d \<Rightarrow> s2\<lparr>profile := Some d\<rparr>))
        in (s3, [if next then Start_profiler (hz s) else Stop_profiler (hz s)]))"

text \<open>What the panel derives from its state: lines 101-106, 108, 170 and 565.\<close>

definition budget_of :: "nat \<Rightarrow> rat" where
  "budget_of h = (if h = 60 then 167 / 10 else 83 / 10)"

definition commits_of :: "panel_state \<Rightarrow> commit list" where
  "commits_of s = (case profile s of None \<Rightarrow> [] | Some p \<Rightarrow> parseCommits (Some p))"


definition panel_jankyCommits :: "panel_state \<Rightarrow> commit_idx list" where
  "panel_jankyCommits s = jankyCommits (commits_of s) (budget_of (hz s))"



section \<open>Reference notions\<close>



text \<open>
  The eight rules of the suggestion engine as the specification lists them, each with
  its place in the priority order, and the rule a message belongs to (0 for the fallback
  message).
\<close>

definition rule_predicates ::
  "aggregate_stats \<Rightarrow> rat \<Rightarrow> live_metrics option \<Rightarrow> (nat \<times> bool) list" where
  "rule_predicates st budget metrics =
     [(1, jankRate st > 20),
      (2, case p95 st of None \<Rightarrow> False | Some p \<Rightarrow> p > budget),
      (3, (case passiveEffectDuration (worst st) of None \<Rightarrow> 0 | Some d \<Rightarrow> d)
            > budget * (1 / 2)),
      (4, avg st > budget * (6 / 10)),
      (5, \<exists>e\<in>set (topUpdaters st). fst e = ''(anonymous)''),
      (6, case metrics of None \<Rightarrow> False
          | Some m \<Rightarrow> (case worstFps m of None \<Rightarrow> False | Some f \<Rightarrow> f < 50)),
      (7, case metrics of None \<Rightarrow> False
          | Some m \<Rightarrow> (case stallTotalMs m of None \<Rightarrow> False | Some t \<Rightarrow> t > 200)),
      (8, culpritsByDuration st \<noteq> [])]"

fun rule_number :: "suggestion \<Rightarrow> nat" where
  "rule_number HighJankRate = 1"
| "rule_number (P95ExceedsBudget _ _) = 2"
| "rule_number LargePassiveEffects = 3"
| "rule_number AverageCloseToBudget = 4"
| "rule_number AnonymousUpdaters = 5"
| "rule_number (LowFps _) = 6"
| "rule_number (JsStalls _) = 7"
| "rule_number (TopCulprit _) = 8"
| "rule_number LooksHealthy = 0"

text \<open>
  The order of the jank table: a longer commit first, and of two commits of the same
  duration the one that comes first in the original sequence.
\<close>

definition ranks_before :: "commit_idx \<Rightarrow> commit_idx \<Rightarrow> bool" where
  "ranks_before a b \<longleftrightarrow>
     duration a > duration b \<or> (duration a = duration b \<and> idx a < idx b)"

text \<open>The commit \<^verbatim>\<open>{ duration: d }\<close>, for examples.\<close>

definition plain_commit :: "rat \<Rightarrow> commit" where
  "plain_commit d =
     \<lparr>timestamp = None, duration = d, effectDuration = None,
      passiveEffectDuration = None, priority = None, updaters = None\<rparr>"

section \<open>Sorting with a difference comparator\<close>

text \<open>
  With the comparator \<open>f a - f b\<close> the sort of the panel is the stable sort of the list
  library by the key \<open>f\<close>; with \<open>f b - f a\<close>, by the negated key.
\<close>

lemma js_insert_asc: "js_insert (\<lambda>a b. f a - f b) x ys = insort_key f x ys"
  by (induction ys) auto

lemma js_sort_asc: "js_sort (\<lambda>a b. f a - f b) xs = sort_key f xs"
  by (induction xs) (auto simp: js_sort_def js_insert_asc sort_key_def)

lemma js_sort_desc: "js_sort (\<lambda>a b. f b - f a) xs = sort_key (\<lambda>x. - f x) xs"
  using js_sort_asc [of "\<lambda>x. - f x" xs] by simp

lemma js_sort_id: "js_sort (\<lambda>a b. a - b) xs = sort xs"
  using js_sort_asc [of "\<lambda>x. x" xs] by simp


section \<open>Binary64 rounding\<close>

text \<open>
  Rounding is monotone on the non-negative numbers, and exact at 0, 1 and 100; so a
  quotient of two counts \<open>j \<le> n\<close> rounds into \<open>[0, 1]\<close>, its product with 100 into
  \<open>[0, 100]\<close>, and neither operation overflows.
\<close>

lemma round_even_cases: "round_even q = \<lfloor>q\<rfloor> \<or> round_even q = \<lfloor>q\<rfloor> + 1"
  by (simp add: round_even_def Let_def)

lemma round_even_ge: "of_int a \<le> q \<Longrightarrow> a \<le> round_even q"
proof -
  assume "of_int a \<le> q"
  then have "a \<le> \<lfloor>q\<rfloor>" by (simp add: le_floor_iff)
  with round_even_cases [of q] show ?thesis by auto
qed

lemma round_even_int: "round_even (of_int b) = b"
  by (simp add: round_even_def Let_def)

lemma round_even_le: "q \<le> of_int b \<Longrightarrow> round_even q \<le> b"
proof (cases "q = of_int b")
  case True
  then show ?thesis by (simp add: round_even_int)
next
  case False
  assume "q \<le> of_int b"
  with False have "q < of_int b" by simp
  then have "\<lfloor>q\<rfloor> < b" by (simp add: floor_less_iff)
  with round_even_cases [of q] show ?thesis by auto
qed

lemma round_even_mono: "q \<le> r \<Longrightarrow> round_even q \<le> round_even r"
proof (cases "\<lfloor>q\<rfloor> = \<lfloor>r\<rfloor>")
  case True
  assume "q \<le> r"
  with True show ?thesis by (auto simp: round_even_def Let_def)
next
  case False
  assume "q \<le> r"
  then have "\<lfloor>q\<rfloor> \<le> \<lfloor>r\<rfloor>" by (rule floor_mono)
  with False have "\<lfloor>q\<rfloor> + 1 \<le> \<lfloor>r\<rfloor>" by simp
  with round_even_cases [of q] round_even_cases [of r] show ?thesis by auto
qed

lemma binary_exponent_bounds:
  "0 < x \<Longrightarrow> 2 powi binary_exponent x \<le> x \<and> x < 2 powi (binary_exponent x + 1)"
proof (induction x rule: binary_exponent.induct)
  case (1 x)
  show ?case
  proof (cases "2 \<le> x")
    case True
    then have ih: "2 powi binary_exponent (x / 2) \<le> x / 2"
      "x / 2 < 2 powi (binary_exponent (x / 2) + 1)"
      using 1 by simp_all
    have e: "binary_exponent x = binary_exponent (x / 2) + 1"
      using True by (subst binary_exponent.simps) simp
    show ?thesis unfolding e using ih by (simp add: power_int_add)
  next
    case False
    show ?thesis
    proof (cases "x < 1")
      case True
      with False 1 have ih: "2 powi binary_exponent (2 * x) \<le> 2 * x"
        "2 * x < 2 powi (binary_exponent (2 * x) + 1)"
        by simp_all
      have e: "binary_exponent x = binary_exponent (2 * x) - 1"
        using True False 1(3) by (subst binary_exponent.simps) simp
      show ?thesis unfolding e using ih by (simp add: power_int_add power_int_diff)
    next
      case F2: False
      have "binary_exponent x = 0"
        using False F2 by (subst binary_exponent.simps) simp
      with False F2 show ?thesis by simp
    qed
  qed
qed

lemma binary_exponent_mono:
  assumes "0 < a" "a \<le> b"
  shows "binary_exponent a \<le> binary_exponent b"
proof (rule ccontr)
  assume "\<not> binary_exponent a \<le> binary_exponent b"
  then have "binary_exponent b + 1 \<le> binary_exponent a" by simp
  then have "(2::rat) powi (binary_exponent b + 1) \<le> 2 powi binary_exponent a"
    by (intro power_int_increasing) simp_all
  moreover have "b < 2 powi (binary_exponent b + 1)" "2 powi binary_exponent a \<le> a"
    using binary_exponent_bounds assms by simp_all
  ultimately show False using assms by simp
qed

lemma binary64_pos: "0 < x \<Longrightarrow> binary64 x = pos_round x"
  by (simp add: binary64_def)

lemma ulp_scale:
  "(2::rat) powi (e + 1) = of_int (2 ^ 53) * 2 powi (e - 52)"
  "(2::rat) powi e = of_int (2 ^ 52) * 2 powi (e - 52)"
proof -
  have "(2::rat) powi (53 + (e - 52)) = 2 powi 53 * 2 powi (e - 52)"
    by (rule power_int_add) simp
  moreover have "53 + (e - 52) = e + 1" by simp
  ultimately show "(2::rat) powi (e + 1) = of_int (2 ^ 53) * 2 powi (e - 52)" by simp
  have "(2::rat) powi (52 + (e - 52)) = 2 powi 52 * 2 powi (e - 52)"
    by (rule power_int_add) simp
  then show "(2::rat) powi e = of_int (2 ^ 52) * 2 powi (e - 52)" by simp
qed

lemma pos_round_upper:
  assumes "0 < a"
  shows "pos_round a \<le> 2 powi (max (binary_exponent a) (- 1022) + 1)"
proof -
  let ?e = "max (binary_exponent a) (- 1022)"
  let ?u = "(2::rat) powi (?e - 52)"
  have u: "0 < ?u" by simp
  have "a < 2 powi (binary_exponent a + 1)" using binary_exponent_bounds assms by simp
  also have "\<dots> \<le> 2 powi (?e + 1)" by (intro power_int_increasing) simp_all
  also have "\<dots> = of_int (2 ^ 53) * ?u" by (rule ulp_scale(1))
  finally have "a / ?u \<le> of_int (2 ^ 53)" using u by (simp only: pos_divide_le_eq less_imp_le)
  then have "round_even (a / ?u) \<le> 2 ^ 53" by (rule round_even_le)
  then have "(of_int (round_even (a / ?u)) :: rat) \<le> of_int (2 ^ 53)"
    by (simp only: of_int_le_iff)
  then have "of_int (round_even (a / ?u)) * ?u \<le> of_int (2 ^ 53) * ?u"
    by (rule mult_right_mono [OF _ less_imp_le [OF u]])
  also have "\<dots> = 2 powi (?e + 1)" by (rule ulp_scale(1) [symmetric])
  finally show ?thesis by (simp only: pos_round_def Let_def)
qed

lemma pos_round_lower:
  assumes "0 < a" "- 1022 \<le> binary_exponent a"
  shows "2 powi binary_exponent a \<le> pos_round a"
proof -
  let ?e = "binary_exponent a"
  let ?u = "(2::rat) powi (?e - 52)"
  have m: "max ?e (- 1022) = ?e" using assms(2) by simp
  have u: "0 < ?u" by simp
  have "2 powi ?e \<le> a" using binary_exponent_bounds assms by simp
  then have "of_int (2 ^ 52) * ?u \<le> a" by (simp only: ulp_scale(2) [symmetric])
  then have "of_int (2 ^ 52) \<le> a / ?u" using u by (simp only: pos_le_divide_eq)
  then have "2 ^ 52 \<le> round_even (a / ?u)" by (rule round_even_ge)
  then have "(of_int (2 ^ 52) :: rat) \<le> of_int (round_even (a / ?u))"
    by (simp only: of_int_le_iff)
  then have "of_int (2 ^ 52) * ?u \<le> of_int (round_even (a / ?u)) * ?u"
    by (rule mult_right_mono [OF _ less_imp_le [OF u]])
  then have "2 powi ?e \<le> of_int (round_even (a / ?u)) * ?u"
    by (simp only: ulp_scale(2) [symmetric])
  then show ?thesis by (simp only: pos_round_def Let_def m)
qed

lemma pos_round_nonneg: "0 < a \<Longrightarrow> 0 \<le> pos_round a"
proof -
  assume a: "0 < a"
  let ?u = "(2::rat) powi (max (binary_exponent a) (- 1022) - 52)"
  have u: "0 < ?u" by simp
  then have "of_int 0 \<le> a / ?u" using a by simp
  then have "0 \<le> round_even (a / ?u)" by (rule round_even_ge)
  then have "(0::rat) \<le> of_int (round_even (a / ?u))" by simp
  then have "0 \<le> of_int (round_even (a / ?u)) * ?u"
    by (rule mult_nonneg_nonneg [OF _ less_imp_le [OF u]])
  then show ?thesis by (simp only: pos_round_def Let_def)
qed

lemma pos_round_mono:
  assumes "0 < a" "a \<le> b"
  shows "pos_round a \<le> pos_round b"
proof -
  let ?ea = "max (binary_exponent a) (- 1022)"
  let ?eb = "max (binary_exponent b) (- 1022)"
  from assms have b: "0 < b" by simp
  have le: "?ea \<le> ?eb" using binary_exponent_mono [OF assms] by simp
  show ?thesis
  proof (cases "?ea = ?eb")
    case True
    let ?u = "(2::rat) powi (?ea - 52)"
    have u: "0 < ?u" by simp
    have "a / ?u \<le> b / ?u" using assms(2) by (rule divide_right_mono [OF _ less_imp_le [OF u]])
    then have "round_even (a / ?u) \<le> round_even (b / ?u)" by (rule round_even_mono)
    then have "(of_int (round_even (a / ?u)) :: rat) \<le> of_int (round_even (b / ?u))"
      by (simp only: of_int_le_iff)
    then have "of_int (round_even (a / ?u)) * ?u \<le> of_int (round_even (b / ?u)) * ?u"
      by (rule mult_right_mono [OF _ less_imp_le [OF u]])
    then show ?thesis unfolding pos_round_def Let_def True [symmetric] .
  next
    case False
    with le have lt: "?ea + 1 \<le> ?eb" by simp
    then have n: "- 1022 \<le> binary_exponent b" "?eb = binary_exponent b" by simp_all
    have "pos_round a \<le> 2 powi (?ea + 1)" by (rule pos_round_upper [OF assms(1)])
    also have "\<dots> \<le> 2 powi ?eb" using lt by (intro power_int_increasing) simp_all
    also have "\<dots> \<le> pos_round b" unfolding n(2) by (rule pos_round_lower [OF b n(1)])
    finally show ?thesis .
  qed
qed

lemma binary64_zero: "binary64 0 = 0"
  by (simp add: binary64_def)

lemma binary64_nonneg: "0 \<le> x \<Longrightarrow> 0 \<le> binary64 x"
  by (cases "x = 0") (simp_all add: binary64_zero binary64_pos pos_round_nonneg)

lemma binary64_mono:
  assumes "0 \<le> x" "x \<le> y"
  shows "binary64 x \<le> binary64 y"
proof (cases "x = 0")
  case True
  with assms show ?thesis by (simp add: binary64_zero binary64_nonneg)
next
  case False
  with assms have "0 < x" "0 < y" by simp_all
  with assms(2) show ?thesis by (simp add: binary64_pos pos_round_mono)
qed

lemma binary64_one: "binary64 1 = 1" by code_simp
lemma binary64_hundred: "binary64 100 = 100" by code_simp

lemma percent_bounds:
  assumes "j \<le> n" "0 < n"
  shows "0 \<le> Math_round (binary64 (binary64 (of_nat j / of_nat n) * 100))"
    and "Math_round (binary64 (binary64 (of_nat j / of_nat n) * 100)) \<le> 100"
    and "0 \<le> binary64 (of_nat j / of_nat n)" and "binary64 (of_nat j / of_nat n) \<le> 1"
    and "0 \<le> binary64 (binary64 (of_nat j / of_nat n) * 100)"
    and "binary64 (binary64 (of_nat j / of_nat n) * 100) \<le> 100"
proof -
  let ?q = "binary64 (of_nat j / of_nat n)"
  let ?p = "binary64 (?q * 100)"
  have r: "(0::rat) \<le> of_nat j / of_nat n" "(of_nat j :: rat) / of_nat n \<le> 1"
    using assms by simp_all
  show q0: "0 \<le> ?q" using r(1) by (rule binary64_nonneg)
  show q1: "?q \<le> 1" using binary64_mono [OF r] by (simp add: binary64_one)
  from q0 q1 have s: "0 \<le> ?q * 100" "?q * 100 \<le> 100" by simp_all
  show p0: "0 \<le> ?p" using s(1) by (rule binary64_nonneg)
  show p1: "?p \<le> 100" using binary64_mono [OF s] by (simp add: binary64_hundred)
  from p0 show "0 \<le> Math_round ?p" by (simp add: Math_round_def)
  from p1 have "?p + 1 / 2 < 101" by simp
  then have "\<lfloor>?p + 1 / 2\<rfloor> < 101" by (simp add: floor_less_iff)
  then show "Math_round ?p \<le> 100" by (simp add: Math_round_def)
qed

lemma binary_exponent_small:
  assumes "0 < r" "r < 2 ^ 1024"
  shows "binary_exponent r < 1024"
proof (rule ccontr)
  assume "\<not> binary_exponent r < 1024"
  then have "(2::rat) powi 1024 \<le> 2 powi binary_exponent r"
    by (intro power_int_increasing) simp_all
  also have "\<dots> \<le> r" using binary_exponent_bounds assms(1) by simp
  finally have "(2::rat) powi 1024 \<le> r" .
  moreover have "(2::rat) powi 1024 = 2 ^ 1024" by (simp add: power_int_def)
  ultimately show False using assms(2) by simp
qed

lemma fl_finite:
  assumes "0 \<le> binary64 x" "binary64 x < 2 ^ 1024"
  shows "fl x = Finite (binary64 x)"
proof (cases "binary64 x = 0")
  case True
  then show ?thesis by (simp add: fl_def)
next
  case False
  with assms(1) have "0 < binary64 x" by simp
  then have "binary_exponent \<bar>binary64 x\<bar> < 1024"
    using binary_exponent_small [of "binary64 x"] assms(2) by simp
  with False show ?thesis by (simp add: fl_def Let_def)
qed

lemma percent_no_overflow:
  assumes "j \<le> n" "0 < n"
  shows "Math_round_double (fmul (fdiv (of_nat j) (Finite (of_nat n))) 100)
           = Finite (of_int (Math_round (binary64 (binary64 (of_nat j / of_nat n) * 100))))"
proof -
  let ?q = "binary64 (of_nat j / of_nat n)"
  let ?p = "binary64 (?q * 100)"
  have big: "(100::rat) < 2 ^ 1024" "(1::rat) < 2 ^ 1024" by simp_all
  have q: "fl (of_nat j / of_nat n) = Finite ?q"
    using percent_bounds(3,4) [OF assms] big by (intro fl_finite) linarith+
  have p: "fl (?q * 100) = Finite ?p"
    using percent_bounds(5,6) [OF assms] big by (intro fl_finite) linarith+
  from assms(2) have "fdiv (of_nat j) (Finite (of_nat n)) = fl (of_nat j / of_nat n)"
    by (simp add: fdiv_def)
  then show ?thesis by (simp add: q p fmul_def Math_round_double_def)
qed

lemma binary64_nonpos: "x \<le> 0 \<Longrightarrow> binary64 x \<le> 0"
proof (cases "x = 0")
  case True
  then show ?thesis by (simp add: binary64_zero)
next
  case False
  assume "x \<le> 0"
  with False have "0 < - x" by simp
  then have "0 \<le> pos_round (- x)" by (rule pos_round_nonneg)
  with False \<open>x \<le> 0\<close> show ?thesis by (simp add: binary64_def)
qed

lemma fl_nonpos: "x \<le> 0 \<Longrightarrow> \<not> gt_zero (fl x)"
  using binary64_nonpos [of x] by (auto simp: fl_def gt_zero_def Let_def)

section \<open>The aggregation loop\<close>

lemma updaters_keep:
  "janky_v (foldl (updater_step d) s us) = janky_v s"
  "worst_v (foldl (updater_step d) s us) = worst_v s"
  "durations (foldl (updater_step d) s us) = durations s"
  "effectHeavy (foldl (updater_step d) s us) = effectHeavy s"
  "passiveHeavy (foldl (updater_step d) s us) = passiveHeavy s"
  "maxPassive_v (foldl (updater_step d) s us) = maxPassive_v s"
  by (induction us arbitrary: s; simp add: updater_step_def Let_def)+

lemma commit_step_durations: "durations (commit_step b s c) = durations s @ [duration c]"
  by (simp add: commit_step_def Let_def updaters_keep split: option.splits)

lemma commit_step_janky:
  "janky_v (commit_step b s c) = janky_v s + (if duration c > b then 1 else 0)"
  by (simp add: commit_step_def Let_def updaters_keep split: option.splits)

lemma commit_step_worst: "worst_v (commit_step b s c) \<noteq> None"
  by (simp add: commit_step_def Let_def updaters_keep split: option.splits)

lemma loop_durations:
  "durations (foldl (commit_step b) s cs) = durations s @ map duration cs"
  by (induction cs arbitrary: s) (simp_all add: commit_step_durations)

lemma loop_janky:
  "janky_v (foldl (commit_step b) s cs) = janky_v s + length (filter (\<lambda>c. duration c > b) cs)"
  by (induction cs arbitrary: s) (simp_all add: commit_step_janky)

lemma loop_worst: "cs \<noteq> [] \<Longrightarrow> worst_v (foldl (commit_step b) s cs) \<noteq> None"
  by (induction cs arbitrary: s rule: rev_induct) (simp_all add: commit_step_worst)

lemma stats_Some: "cs \<noteq> [] \<Longrightarrow> \<exists>st. stats cs b p = Some st"
  using loop_worst [of cs b loop_init]
  by (auto simp: stats_def Let_def split: option.splits)

lemma stats_fields:
  assumes "stats cs b p = Some st"
  shows "total_count st = length cs"
    and "janky st = length (filter (\<lambda>c. duration c > b) cs)"
    and "jankRate st =
           Math_round (binary64 (binary64 (of_nat (janky st) / of_nat (total_count st)) * 100))"
    and "median st = median_of (sort (map duration cs))"
    and "p95 st = p95_of (sort (map duration cs))"
  using assms
  by (auto simp: stats_def Let_def loop_durations loop_janky loop_init_def js_sort_id
      split: if_splits option.splits)

lemma stats_perMinute_eq:
  assumes "stats cs b p = Some st"
  shows "perMinute st =
           (if gt_zero (windowMs p)
            then Some (Math_round_double (fmul (fdiv (of_nat (length cs)) (windowMs p)) 60000))
            else None)"
  using assms
  by (auto simp: stats_def Let_def split: if_splits option.splits)

section \<open>Median and 95th percentile\<close>










section \<open>Absent statistics, jank rate, commits per minute\<close>

text \<open>
  C3. The aggregation returns the absent value exactly for the empty commit sequence (the
  model has no exception to raise); a statistics object it returns is never a zeroed one:
  its total is the positive length of the sequence.
\<close>

theorem stats_absent_iff_empty:
  "(stats commits budget prof = None \<longleftrightarrow> commits = [])
   \<and> (\<forall>st. stats commits budget prof = Some st
          \<longrightarrow> total_count st = length commits \<and> 0 < total_count st)"
proof (intro conjI allI impI)
  show "stats commits budget prof = None \<longleftrightarrow> commits = []"
  proof
    assume "stats commits budget prof = None"
    then show "commits = []" using stats_Some [of commits budget prof] by auto
  next
    assume "commits = []"
    then show "stats commits budget prof = None" by (simp add: stats_def)
  qed
next
  fix st assume st: "stats commits budget prof = Some st"
  then show "total_count st = length commits" by (rule stats_fields(1))
  from st have "commits \<noteq> []" by (auto simp: stats_def)
  then show "0 < total_count st" using stats_fields(1) [OF st] by simp
qed

theorem stats_absent_iff_empty_witness:
  "stats [] (167 / 10) None = None
   \<and> map_option total_count (stats [plain_commit 20, plain_commit 5] (167 / 10) None) = Some 2"
proof -
  have a: "stats [] (167 / 10) None = None"
    using stats_absent_iff_empty [of "[]" "167 / 10" None] by simp
  obtain st where st: "stats [plain_commit 20, plain_commit 5] (167 / 10) None = Some st"
    using stats_absent_iff_empty [of "[plain_commit 20, plain_commit 5]" "167 / 10" None]
    by (cases "stats [plain_commit 20, plain_commit 5] (167 / 10) None") auto
  then have "total_count st = 2"
    using stats_absent_iff_empty [of "[plain_commit 20, plain_commit 5]" "167 / 10" None]
    by simp
  with a st show ?thesis by simp
qed

text \<open>
  C8. For a non-empty commit sequence and any budget, the janky count (the number of
  commits whose duration is over the budget) is at most the total count, and the jank
  rate is \<open>Math.round (janky / total * 100)\<close>, with the division and the multiplication
  of binary64 arithmetic (which do not overflow here), and lies between 0 and 100.
\<close>

theorem stats_jank_bounds:
  assumes "commits \<noteq> []"
  shows "\<exists>st. stats commits budget prof = Some st
           \<and> total_count st = length commits
           \<and> janky st = length (filter (\<lambda>c. duration c > budget) commits)
           \<and> janky st \<le> total_count st
           \<and> jankRate st =
               Math_round (binary64 (binary64 (of_nat (janky st) / of_nat (total_count st)) * 100))
           \<and> Math_round_double
                (fmul (fdiv (of_nat (janky st)) (Finite (of_nat (total_count st)))) 100)
               = Finite (of_int (jankRate st))
           \<and> 0 \<le> jankRate st \<and> jankRate st \<le> 100"
proof -
  from assms obtain st where st: "stats commits budget prof = Some st"
    using stats_Some by blast
  have t: "total_count st = length commits" by (rule stats_fields(1) [OF st])
  have f: "janky st = length (filter (\<lambda>c. duration c > budget) commits)"
    by (rule stats_fields(2) [OF st])
  have j: "janky st \<le> total_count st"
    unfolding t f by (rule length_filter_le)
  have r: "jankRate st =
             Math_round (binary64 (binary64 (of_nat (janky st) / of_nat (total_count st)) * 100))"
    by (rule stats_fields(3) [OF st])
  from assms t have pos: "0 < total_count st" by simp
  have d: "Math_round_double
             (fmul (fdiv (of_nat (janky st)) (Finite (of_nat (total_count st)))) 100)
             = Finite (of_int (jankRate st))"
    unfolding r by (rule percent_no_overflow [OF j pos])
  have "0 \<le> jankRate st" "jankRate st \<le> 100"
    unfolding r by (rule percent_bounds(1) [OF j pos], rule percent_bounds(2) [OF j pos])
  with st t f j r d show ?thesis by blast
qed

text \<open>
  With 23 janky commits of 40 the quotient 0.575 and its product with 100 are both
  rounded down, to 57.49999999999999, and the jank rate is 57.
\<close>

theorem stats_jank_bounds_witness:
  "\<exists>st. stats (replicate 23 (plain_commit 20) @ replicate 17 (plain_commit 5)) (167 / 10) None
          = Some st
        \<and> janky st = 23 \<and> total_count st = 40 \<and> jankRate st = 57"
  (is "\<exists>st. stats ?cs ?b ?p = Some st \<and> _")
proof -
  have ne: "?cs \<noteq> []" by simp
  from stats_jank_bounds [OF ne, of ?b ?p]
  obtain st where st: "stats ?cs ?b ?p = Some st"
    and t: "total_count st = length ?cs"
    and j: "janky st = length (filter (\<lambda>c. duration c > ?b) ?cs)"
    and r: "jankRate st =
              Math_round (binary64 (binary64 (of_nat (janky st) / of_nat (total_count st)) * 100))"
    by blast
  have t': "total_count st = 40" using t by simp
  have j': "janky st = 23" using j by (simp add: plain_commit_def)
  have "Math_round (binary64 (binary64 (of_nat 23 / of_nat 40) * 100)) = 57" by code_simp
  then have "jankRate st = 57" unfolding r j' t' .
  with st j' t' show ?thesis by blast
qed

lemma stats_perMinute_window:
  "windowMs prof =
     fl ((case prof of None \<Rightarrow> 0
          | Some p \<Rightarrow> (case profilingEndTime p of None \<Rightarrow> 0 | Some t \<Rightarrow> t))
       - (case prof of None \<Rightarrow> 0
          | Some p \<Rightarrow> (case profilingStartTime p of None \<Rightarrow> 0 | Some t \<Rightarrow> t)))"
  by (simp add: windowMs_def fsub_def or_zero_def split: option.splits)

text \<open>
  C9, as amended. For a non-empty commit sequence, with the window
  \<open>profilingEndTime - profilingStartTime\<close> of the document (a missing instant, or a
  missing document, counting as 0; the difference, the quotient and the product are
  binary64 operations), the commits-per-minute statistic is
  \<open>Math.round (commits / window * 60000)\<close>, a rounded value, when the window is
  positive, and absent otherwise, in particular when the end is not after the start.
  When nothing overflows, it is the integer nearest to the rounded product. It depends
  on the document's window and the number of commits only, not on the commits'
  timestamps.
\<close>

theorem stats_perMinute_rounded:
  assumes "commits \<noteq> []"
  shows "\<exists>st. stats commits budget prof = Some st
           \<and> (let endTime = (case prof of None \<Rightarrow> 0
                             | Some p \<Rightarrow> (case profilingEndTime p of None \<Rightarrow> 0 | Some t \<Rightarrow> t));
                   startTime = (case prof of None \<Rightarrow> 0
                               | Some p \<Rightarrow> (case profilingStartTime p of None \<Rightarrow> 0 | Some t \<Rightarrow> t));
                   window = fl (endTime - startTime)
               in perMinute st =
                    (if gt_zero window
                     then Some (Math_round_double
                                  (fmul (fdiv (of_nat (length commits)) window) 60000))
                     else None)
                  \<and> (endTime \<le> startTime \<longrightarrow> perMinute st = None)
                  \<and> (\<forall>w. window = Finite w \<and> 0 < w
                           \<and> binary64 (of_nat (length commits) / w) < 2 ^ 1024
                           \<and> binary64 (binary64 (of_nat (length commits) / w) * 60000) < 2 ^ 1024
                        \<longrightarrow> perMinute st =
                              Some (Finite (of_int (Math_round
                                (binary64 (binary64 (of_nat (length commits) / w) * 60000)))))))
           \<and> (\<forall>f. map_option perMinute
                      (stats (map (\<lambda>c. c\<lparr>timestamp := f c\<rparr>) commits) budget prof)
                    = Some (perMinute st))"
proof -
  let ?e = "case prof of None \<Rightarrow> 0
            | Some p \<Rightarrow> (case profilingEndTime p of None \<Rightarrow> 0 | Some t \<Rightarrow> t)"
  let ?s = "case prof of None \<Rightarrow> 0
            | Some p \<Rightarrow> (case profilingStartTime p of None \<Rightarrow> 0 | Some t \<Rightarrow> t)"
  let ?n = "of_nat (length commits) :: rat"
  from assms obtain st where st: "stats commits budget prof = Some st"
    using stats_Some by blast
  have w: "windowMs prof = fl (?e - ?s)" by (rule stats_perMinute_window)
  have p: "perMinute st =
             (if gt_zero (fl (?e - ?s))
              then Some (Math_round_double (fmul (fdiv ?n (fl (?e - ?s))) 60000))
              else None)"
    using stats_perMinute_eq [OF st] unfolding w .
  have z: "perMinute st = None" if "?e \<le> ?s"
  proof -
    from that have "?e - ?s \<le> 0" by simp
    then have "\<not> gt_zero (fl (?e - ?s))" by (rule fl_nonpos)
    with p show ?thesis by simp
  qed
  have n: "perMinute st =
             Some (Finite (of_int (Math_round (binary64 (binary64 (?n / w) * 60000)))))"
    if f: "fl (?e - ?s) = Finite w" and pos: "0 < w"
      and b1: "binary64 (?n / w) < 2 ^ 1024"
      and b2: "binary64 (binary64 (?n / w) * 60000) < 2 ^ 1024" for w
  proof -
    have "0 \<le> ?n / w" using pos by simp
    then have q0: "0 \<le> binary64 (?n / w)" by (rule binary64_nonneg)
    then have "0 \<le> binary64 (?n / w) * 60000" by simp
    then have p0: "0 \<le> binary64 (binary64 (?n / w) * 60000)" by (rule binary64_nonneg)
    have q: "fl (?n / w) = Finite (binary64 (?n / w))"
      using q0 b1 by (rule fl_finite)
    have r: "fl (binary64 (?n / w) * 60000) = Finite (binary64 (binary64 (?n / w) * 60000))"
      using p0 b2 by (rule fl_finite)
    have "fdiv ?n (Finite w) = fl (?n / w)" using pos by (simp add: fdiv_def)
    then have "Math_round_double (fmul (fdiv ?n (Finite w)) 60000)
                 = Finite (of_int (Math_round (binary64 (binary64 (?n / w) * 60000))))"
      by (simp add: q r fmul_def Math_round_double_def)
    moreover have "gt_zero (Finite w)" using pos by (simp add: gt_zero_def)
    ultimately show ?thesis using p unfolding f by simp
  qed
  have i: "map_option perMinute (stats (map (\<lambda>c. c\<lparr>timestamp := f c\<rparr>) commits) budget prof)
             = Some (perMinute st)" for f
  proof -
    from assms have "map (\<lambda>c. c\<lparr>timestamp := f c\<rparr>) commits \<noteq> []" by simp
    then obtain st' where
      st': "stats (map (\<lambda>c. c\<lparr>timestamp := f c\<rparr>) commits) budget prof = Some st'"
      using stats_Some by blast
    show ?thesis using stats_perMinute_eq [OF st'] stats_perMinute_eq [OF st] st' by simp
  qed
  show ?thesis
    unfolding Let_def using st p z n i by blast
qed

text \<open>
  With 21 commits in the window from 1000 to 41000 the product is rounded to
  31.499999999999996, and the statistic is 31.
\<close>

theorem stats_perMinute_rounded_witness:
  "\<exists>st. stats (replicate 21 (plain_commit 1)) (167 / 10)
          (Some \<lparr>dataForRoots = None, profilingStartTime = Some 1000,
                  profilingEndTime = Some 41000, version = None\<rparr>) = Some st
        \<and> perMinute st = Some (Finite 31)"
  (is "\<exists>st. stats ?cs ?b ?p = Some st \<and> _")
proof -
  have ne: "?cs \<noteq> []" by simp
  have ev: "(if gt_zero (fl 40000)
             then Some (Math_round_double (fmul (fdiv 21 (fl 40000)) 60000))
             else None) = Some (Finite 31)"
    by code_simp
  from stats_perMinute_rounded [OF ne, of ?b ?p]
  obtain st where st: "stats ?cs ?b ?p = Some st"
    and p: "perMinute st =
              (if gt_zero (fl 40000)
               then Some (Math_round_double (fmul (fdiv 21 (fl 40000)) 60000))
               else None)"
    by (auto simp: Let_def)
  from p ev have "perMinute st = Some (Finite 31)" by (simp only:)
  with st show ?thesis by blast
qed

text \<open>
  The claim C9 as it is written, with the unrounded quotient, fails: one commit in a
  window of 7000 ms gives 9, which is neither the exact \<open>1 / 7000 * 60000\<close> nor its
  binary64 value.
\<close>

theorem stats_perMinute_counterexample:
  "map_option perMinute
     (stats [plain_commit 1] (167 / 10)
        (Some \<lparr>dataForRoots = None, profilingStartTime = Some 0,
                profilingEndTime = Some 7000, version = None\<rparr>))
     = Some (Some (Finite 9))
   \<and> (9 :: rat) \<noteq> 1 / (7000 - 0) * 60000
   \<and> (9 :: rat) \<noteq> binary64 (binary64 (1 / binary64 (7000 - 0)) * 60000)"
  by code_simp

section \<open>Commit extractor\<close>

text \<open>
  C7. \<^verbatim>\<open>parseCommits\<close> is a total function with no failing operation: a null document,
  an absent \<^verbatim>\<open>dataForRoots\<close>, an empty list of roots, a null first root, an absent
  \<^verbatim>\<open>commitData\<close> and a \<^verbatim>\<open>commitData\<close> that is not an array all give the empty
  sequence; otherwise the result is the commit sequence of the first root, whatever the
  other roots hold.
\<close>

theorem parseCommits_cases:
  "parseCommits None = []
   \<and> (dataForRoots j = None \<longrightarrow> parseCommits (Some j) = [])
   \<and> (dataForRoots j = Some [] \<longrightarrow> parseCommits (Some j) = [])
   \<and> (dataForRoots j = Some (None # rs) \<longrightarrow> parseCommits (Some j) = [])
   \<and> (dataForRoots j = Some (Some r # rs) \<longrightarrow>
        parseCommits (Some j) =
          (case commitData r of
             None \<Rightarrow> []
           | Some NotAnArray \<Rightarrow> []
           | Some (CommitArray cs) \<Rightarrow> cs))"
  by (simp add: parseCommits_def split: option.splits commitData_value.splits)

theorem parseCommits_cases_witness:
  "parseCommits (Some \<lparr>dataForRoots = None, profilingStartTime = None,
                        profilingEndTime = None, version = None\<rparr>) = []
   \<and> parseCommits (Some \<lparr>dataForRoots = Some [], profilingStartTime = None,
                        profilingEndTime = None, version = None\<rparr>) = []
   \<and> parseCommits (Some \<lparr>dataForRoots =
                            Some [Some \<lparr>commitData = None, displayName_root = None\<rparr>,
                                  Some \<lparr>commitData = Some (CommitArray [plain_commit 3]),
                                   displayName_root = None\<rparr>],
                          profilingStartTime = None, profilingEndTime = None,
                          version = None\<rparr>) = []
   \<and> parseCommits (Some \<lparr>dataForRoots =
                            Some [Some \<lparr>commitData = Some NotAnArray, displayName_root = None\<rparr>],
                          profilingStartTime = None, profilingEndTime = None,
                          version = None\<rparr>) = []
   \<and> parseCommits (Some \<lparr>dataForRoots =
                            Some [None,
                                  Some \<lparr>commitData = Some (CommitArray [plain_commit 4]),
                                   displayName_root = None\<rparr>],
                          profilingStartTime = None, profilingEndTime = None,
                          version = None\<rparr>) = []
   \<and> parseCommits (Some \<lparr>dataForRoots =
                            Some [Some \<lparr>commitData = Some (CommitArray [plain_commit 1]),
                                   displayName_root = None\<rparr>,
                                  Some \<lparr>commitData = Some (CommitArray [plain_commit 2]),
                                   displayName_root = None\<rparr>],
                          profilingStartTime = None, profilingEndTime = None,
                          version = None\<rparr>) = [plain_commit 1]"
  using
    parseCommits_cases [where j = "\<lparr>dataForRoots = None, profilingStartTime = None,
                        profilingEndTime = None, version = None\<rparr>"]
    parseCommits_cases [where j = "\<lparr>dataForRoots = Some [], profilingStartTime = None,
                        profilingEndTime = None, version = None\<rparr>"]
    parseCommits_cases [where j = "\<lparr>dataForRoots =
                            Some [Some \<lparr>commitData = None, displayName_root = None\<rparr>,
                                  Some \<lparr>commitData = Some (CommitArray [plain_commit 3]),
                                   displayName_root = None\<rparr>],
                          profilingStartTime = None, profilingEndTime = None,
                          version = None\<rparr>"
        and r = "\<lparr>commitData = None, displayName_root = None\<rparr>"]
    parseCommits_cases [where j = "\<lparr>dataForRoots =
                            Some [Some \<lparr>commitData = Some NotAnArray, displayName_root = None\<rparr>],
                          profilingStartTime = None, profilingEndTime = None,
                          version = None\<rparr>"
        and r = "\<lparr>commitData = Some NotAnArray, displayName_root = None\<rparr>"]
    parseCommits_cases [where j = "\<lparr>dataForRoots =
                            Some [None,
                                  Some \<lparr>commitData = Some (CommitArray [plain_commit 4]),
                                   displayName_root = None\<rparr>],
                          profilingStartTime = None, profilingEndTime = None,
                          version = None\<rparr>"]
    parseCommits_cases [where j = "\<lparr>dataForRoots =
                            Some [Some \<lparr>commitData = Some (CommitArray [plain_commit 1]),
                                   displayName_root = None\<rparr>,
                                  Some \<lparr>commitData = Some (CommitArray [plain_commit 2]),
                                   displayName_root = None\<rparr>],
                          profilingStartTime = None, profilingEndTime = None,
                          version = None\<rparr>"
        and r = "\<lparr>commitData = Some (CommitArray [plain_commit 1]),
                                   displayName_root = None\<rparr>"]
  by simp

section \<open>Live session tracker\<close>










section \<open>Reset\<close>

lemma clear_clicked_fields:
  "profile (fst (clear_clicked s)) = None"
  "fps (fst (clear_clicked s)) = None"
  "stallsMs (fst (clear_clicked s)) = None"
  "isCapturing (fst (clear_clicked s)) = False"
  "hermesStatus (fst (clear_clicked s)) = None"
  "sessionWorstFps (fst (clear_clicked s)) = sessionWorstFps s"
  "sessionStallTotalMs (fst (clear_clicked s)) = sessionStallTotalMs s"
  "snd (clear_clicked s) = [Reset_profiler]"
  by (simp_all add: clear_clicked_def)


section \<open>Jank table\<close>

lemma insort_key_stable_order:
  assumes "sorted_wrt (\<lambda>a b. f a < f b \<or> (f a = f b \<and> Q a b)) xs"
    and "\<forall>y\<in>set xs. Q x y"
  shows "sorted_wrt (\<lambda>a b. f a < f b \<or> (f a = f b \<and> Q a b)) (insort_key f x xs)"
  using assms
proof (induction xs)
  case Nil
  then show ?case by simp
next
  case (Cons y ys)
  show ?case
  proof (cases "f x \<le> f y")
    case True
    have "f x < f z \<or> (f x = f z \<and> Q x z)" if "z \<in> set (y # ys)" for z
    proof -
      have "f y \<le> f z" using Cons.prems(1) that by auto
      with True have "f x \<le> f z" by simp
      moreover have "Q x z" using Cons.prems(2) that by auto
      ultimately show ?thesis by auto
    qed
    with True Cons.prems(1) show ?thesis by simp
  next
    case False
    then have "f y < f x" by simp
    moreover have "sorted_wrt (\<lambda>a b. f a < f b \<or> (f a = f b \<and> Q a b)) (insort_key f x ys)"
      using Cons by simp
    ultimately show ?thesis using False Cons.prems(1) by (auto simp: set_insort_key)
  qed
qed

lemma sort_key_stable_order:
  "sorted_wrt Q xs \<Longrightarrow>
   sorted_wrt (\<lambda>a b. f a < f b \<or> (f a = f b \<and> Q a b)) (sort_key f xs)"
proof (induction xs)
  case Nil
  then show ?case by simp
next
  case (Cons x xs)
  then have "sorted_wrt (\<lambda>a b. f a < f b \<or> (f a = f b \<and> Q a b)) (sort_key f xs)"
    and "\<forall>y\<in>set (sort_key f xs). Q x y"
    by simp_all
  then show ?case by (simp add: insort_key_stable_order)
qed

lemma indexed_nth: "indexed cs = map (\<lambda>i. with_idx (cs ! i) i) [0..<length cs]"
  by (rule nth_equalityI) (simp_all add: indexed_def)

lemma idx_with_idx: "idx (with_idx c i) = i" "duration (with_idx c i) = duration c"
  by (simp_all add: with_idx_def)

lemma indexed_sorted: "sorted_wrt (\<lambda>a b. idx a < idx b) (indexed cs)"
proof -
  have "map idx (indexed cs) = [0..<length cs]"
    by (simp add: indexed_nth idx_with_idx comp_def map_idI)
  then have "sorted_wrt (<) (map idx (indexed cs))" by simp
  then show ?thesis by (simp add: sorted_wrt_map)
qed

lemma indexed_set:
  "set (indexed cs) = (\<lambda>i. with_idx (cs ! i) i) ` {i. i < length cs}"
  by (auto simp: indexed_nth)

lemma indexed_filter_length:
  "length (filter (\<lambda>e. duration e > b) (indexed cs)) = length (filter (\<lambda>c. duration c > b) cs)"
proof -
  let ?zs = "zip cs [0..<length cs]"
  have "filter (\<lambda>e. duration e > b) (indexed cs)
          = map (\<lambda>(c, i). with_idx c i) (filter (\<lambda>p. duration (fst p) > b) ?zs)"
    by (simp add: indexed_def filter_map comp_def idx_with_idx case_prod_unfold)
  then have "length (filter (\<lambda>e. duration e > b) (indexed cs))
          = length (filter (\<lambda>p. duration (fst p) > b) ?zs)"
    by simp
  also have "\<dots> = length (filter (\<lambda>c. duration c > b) (map fst ?zs))"
    by (simp only: filter_map comp_def length_map)
  also have "map fst ?zs = cs" by simp
  finally show ?thesis .
qed

lemma jankyCommits_sort:
  "jankyCommits cs b =
     take 20 (sort_key (\<lambda>e. - duration e) (filter (\<lambda>e. duration e > b) (indexed cs)))"
  by (simp add: jankyCommits_def js_sort_desc)

lemma janky_full_sorted:
  "sorted_wrt ranks_before
     (sort_key (\<lambda>e. - duration e) (filter (\<lambda>e. duration e > b) (indexed cs)))"
proof -
  have "sorted_wrt (\<lambda>a b. idx a < idx b) (filter (\<lambda>e. duration e > b) (indexed cs))"
    by (rule sorted_wrt_filter [OF indexed_sorted])
  from sort_key_stable_order [OF this, of "\<lambda>e. - duration e"]
  show ?thesis
    by (rule sorted_wrt_mono_rel [rotated]) (auto simp: ranks_before_def)
qed

text \<open>
  C2. For every commit sequence and budget, the jank table has at most 20 entries (as
  many as there are commits over budget, if fewer); each entry is a commit of the
  sequence whose duration is strictly over the budget, carrying its zero-based position
  in the original sequence; the entries are in descending order of duration, entries of
  the same duration in their original order; and a commit over budget is missing from the
  table only when the table is full and all its entries rank before that commit.
\<close>

theorem jankyCommits_table:
  "length (jankyCommits commits budget)
     = min 20 (length (filter (\<lambda>c. duration c > budget) commits))
   \<and> (\<forall>e\<in>set (jankyCommits commits budget).
         idx e < length commits \<and> e = with_idx (commits ! idx e) (idx e) \<and> duration e > budget)
   \<and> sorted_wrt ranks_before (jankyCommits commits budget)
   \<and> (\<forall>i<length commits.
         duration (commits ! i) > budget \<and> with_idx (commits ! i) i \<notin> set (jankyCommits commits budget)
         \<longrightarrow> length (jankyCommits commits budget) = 20
           \<and> (\<forall>e\<in>set (jankyCommits commits budget). ranks_before e (with_idx (commits ! i) i)))"
proof (intro conjI ballI allI impI)
  let ?F = "filter (\<lambda>e. duration e > budget) (indexed commits)"
  let ?S = "sort_key (\<lambda>e. - duration e) ?F"
  let ?T = "jankyCommits commits budget"
  have T: "?T = take 20 ?S" by (rule jankyCommits_sort)
  have S: "sorted_wrt ranks_before ?S" by (rule janky_full_sorted)
  show "length ?T = min 20 (length (filter (\<lambda>c. duration c > budget) commits))"
    unfolding T by (simp add: indexed_filter_length min.commute)
  show "sorted_wrt ranks_before ?T"
    unfolding T using S by (rule sorted_wrt_take)
  {
    fix e assume "e \<in> set ?T"
    then have "e \<in> set ?S" unfolding T by (rule in_set_takeD)
    then have e: "e \<in> set (indexed commits)" "duration e > budget" by simp_all
    then obtain i where i: "i < length commits" "e = with_idx (commits ! i) i"
      by (auto simp: indexed_set)
    then show "idx e < length commits" "e = with_idx (commits ! idx e) (idx e)"
      by (simp_all add: idx_with_idx)
    show "duration e > budget" by (rule e(2))
  }
  {
    fix i
    assume i: "i < length commits"
      and a: "duration (commits ! i) > budget \<and> with_idx (commits ! i) i \<notin> set ?T"
    let ?g = "with_idx (commits ! i) i"
    have "?g \<in> set (indexed commits)" using i by (auto simp: indexed_set)
    then have "?g \<in> set ?S" using a by (simp add: idx_with_idx)
    then obtain j where j: "j < length ?S" "?S ! j = ?g" by (metis in_set_conv_nth)
    have j20: "20 \<le> j"
    proof (rule ccontr)
      assume "\<not> 20 \<le> j"
      then have "j < length (take 20 ?S)" "take 20 ?S ! j = ?g" using j by simp_all
      then have "?g \<in> set (take 20 ?S)" by (metis nth_mem)
      with a show False unfolding T by simp
    qed
    with j(1) show "length ?T = 20" unfolding T by simp
    fix e assume "e \<in> set ?T"
    then obtain k where k: "k < length (take 20 ?S)" "take 20 ?S ! k = e"
      unfolding T by (metis in_set_conv_nth)
    then have kj: "k < j" "?S ! k = e" using j20 by simp_all
    from S kj(1) j(1) have "ranks_before (?S ! k) (?S ! j)"
      by (simp only: sorted_wrt_iff_nth_less)
    then show "ranks_before e ?g" by (simp only: kj(2) j(2))
  }
qed

theorem jankyCommits_table_witness:
  "map idx (jankyCommits [plain_commit 20, plain_commit 5, plain_commit 30] (167 / 10)) = [2, 0]
   \<and> map duration (jankyCommits [plain_commit 20, plain_commit 5, plain_commit 30] (167 / 10))
       = [30, 20]
   \<and> length (jankyCommits [plain_commit 20, plain_commit 5, plain_commit 30] (167 / 10)) = 2"
  (is "map idx ?T = _ \<and> _ \<and> _")
proof -
  have "length ?T
          = min 20 (length (filter (\<lambda>c. duration c > 167 / 10)
                              [plain_commit 20, plain_commit 5, plain_commit 30]))"
    using jankyCommits_table [of "[plain_commit 20, plain_commit 5, plain_commit 30]" "167 / 10"]
    by blast
  then have l: "length ?T = 2" by (simp add: plain_commit_def)
  have "map idx ?T = [2, 0]" "map duration ?T = [30, 20]" by code_simp+
  with l show ?thesis by simp
qed

section \<open>Suggestion engine\<close>

lemma push_if: "(if c then xs @ [x] else xs) = xs @ (if c then [x] else [])"
  by simp

lemma rule_items_concat:
  "rule_items st b m =
        (if jankRate st > 20 then [HighJankRate] else [])
      @ (case p95 st of None \<Rightarrow> [] | Some p \<Rightarrow> if p > b then [P95ExceedsBudget p b] else [])
      @ (if or_zero (passiveEffectDuration (worst st)) > b * (1 / 2) then [LargePassiveEffects] else [])
      @ (if avg st > b * (6 / 10) then [AverageCloseToBudget] else [])
      @ (if list_ex (\<lambda>e. fst e = ''(anonymous)'') (topUpdaters st) then [AnonymousUpdaters] else [])
      @ (case (case m of None \<Rightarrow> None | Some m' \<Rightarrow> worstFps m') of
           None \<Rightarrow> [] | Some f \<Rightarrow> if f < 50 then [LowFps f] else [])
      @ (if or_zero (case m of None \<Rightarrow> None | Some m' \<Rightarrow> stallTotalMs m') > 200
         then [JsStalls (or_zero (case m of None \<Rightarrow> None | Some m' \<Rightarrow> stallTotalMs m'))] else [])
      @ (case culpritsByDuration st of [] \<Rightarrow> [] | e # _ \<Rightarrow> [TopCulprit (fst e)])"
  unfolding rule_items_def Let_def push_if
  by (cases "p95 st"; cases "culpritsByDuration st";
      cases "case m of None \<Rightarrow> None | Some m' \<Rightarrow> worstFps m'")
     (simp_all only: option.case list.case push_if append_Nil append_Nil2 append_assoc)

lemma fired_Cons:
  "map fst (filter snd ((k, c) # rs)) = (if c then [k] else []) @ map fst (filter snd rs)"
  by simp

lemma map_if_single: "map f (if c then [x] else []) = (if c then [f x] else [])"
  by simp

lemma rule_items_numbers:
  "map rule_number (rule_items st b m) = map fst (filter snd (rule_predicates st b m))"
  unfolding rule_items_concat rule_predicates_def fired_Cons map_append map_if_single
    rule_number.simps
  by (cases "p95 st"; cases "culpritsByDuration st"; cases m)
     (simp_all add: or_zero_def list_ex_iff map_if_single split: option.splits
        split del: if_split cong: if_cong)

lemma rule_items_Anonymous:
  "AnonymousUpdaters \<in> set (rule_items st b m)
     \<longleftrightarrow> list_ex (\<lambda>e. fst e = ''(anonymous)'') (topUpdaters st)"
  unfolding rule_items_concat
  by (simp split: option.splits list.splits)


lemma Suggestions_fallback:
  "Suggestions st b m =
     (if rule_items st b m = [] then [LooksHealthy] else rule_items st b m)"
  by (simp add: Suggestions_def Let_def)

lemma fired_positive: "0 \<notin> set (map fst (filter snd (rule_predicates st b m)))"
  by (auto simp: rule_predicates_def)

lemma rule_items_not_fallback: "LooksHealthy \<notin> set (rule_items st b m)"
proof
  assume "LooksHealthy \<in> set (rule_items st b m)"
  then have "rule_number LooksHealthy \<in> set (map rule_number (rule_items st b m))"
    by (simp only: set_map image_eqI)
  then show False
    using fired_positive [of st b m] by (simp add: rule_items_numbers)
qed

text \<open>
  C4. For every statistics value, budget and optional live metrics, the fallback message
  is among the suggestions exactly when none of the eight rules holds, and then it is the
  only suggestion; when some rule holds, the suggestions are the messages of the rules
  that hold, each once, in the priority order 1 to 8.
\<close>

theorem Suggestions_priority:
  "(LooksHealthy \<in> set (Suggestions st budget metrics)
      \<longleftrightarrow> (\<forall>r\<in>set (rule_predicates st budget metrics). \<not> snd r))
   \<and> (LooksHealthy \<in> set (Suggestions st budget metrics)
        \<longrightarrow> Suggestions st budget metrics = [LooksHealthy])
   \<and> ((\<exists>r\<in>set (rule_predicates st budget metrics). snd r)
        \<longrightarrow> map rule_number (Suggestions st budget metrics)
              = map fst (filter snd (rule_predicates st budget metrics)))
   \<and> sorted_wrt (<) (map rule_number (Suggestions st budget metrics))"
proof -
  let ?items = "rule_items st budget metrics"
  let ?rules = "rule_predicates st budget metrics"
  have n: "map rule_number ?items = map fst (filter snd ?rules)"
    by (rule rule_items_numbers)
  have e: "?items = [] \<longleftrightarrow> (\<forall>r\<in>set ?rules. \<not> snd r)"
  proof -
    have "?items = [] \<longleftrightarrow> map rule_number ?items = []" by simp
    also have "\<dots> \<longleftrightarrow> filter snd ?rules = []" unfolding n by simp
    also have "\<dots> \<longleftrightarrow> (\<forall>r\<in>set ?rules. \<not> snd r)" by (simp add: filter_empty_conv)
    finally show ?thesis .
  qed
  have "sorted_wrt (<) (map fst ?rules)" by (simp add: rule_predicates_def)
  then have s: "sorted_wrt (<) (map rule_number ?items)"
    unfolding n by (simp add: sorted_wrt_map sorted_wrt_filter)
  have a: "LooksHealthy \<in> set (Suggestions st budget metrics) \<longleftrightarrow> ?items = []"
    using rule_items_not_fallback [of st budget metrics]
    by (simp add: Suggestions_fallback)
  show ?thesis
    using a e n s by (auto simp: Suggestions_fallback)
qed

theorem Suggestions_priority_witness:
  "Suggestions
     \<lparr>total_count = 1, janky = 0, jankRate = 0, worst = plain_commit 5, topUpdaters = [],
      avg = 5, median = Some 5, p95 = Some 5, culpritsByDuration = [], effectShare = 0,
      passiveShare = 0, maxPassive = 0, perMinute = None\<rparr> (167 / 10) None = [LooksHealthy]
   \<and> map rule_number (Suggestions
       \<lparr>total_count = 3, janky = 2, jankRate = 67, worst = plain_commit 30, topUpdaters = [],
        avg = 55 / 3, median = Some 20, p95 = Some 20, culpritsByDuration = [(''Foo'', 50)],
        effectShare = 0, passiveShare = 0, maxPassive = 0, perMinute = None\<rparr> (167 / 10) None)
       = [1, 2, 4, 8]"
  (is "Suggestions ?h ?b ?m = _ \<and> map rule_number (Suggestions ?j _ _) = _")
proof
  have "\<forall>r\<in>set (rule_predicates ?h ?b ?m). \<not> snd r"
    by (simp add: rule_predicates_def plain_commit_def)
  with Suggestions_priority [of ?h ?b ?m] show "Suggestions ?h ?b ?m = [LooksHealthy]"
    by blast
  have f: "map fst (filter snd (rule_predicates ?j ?b ?m)) = [1, 2, 4, 8]"
    by (simp add: rule_predicates_def plain_commit_def)
  have "\<exists>r\<in>set (rule_predicates ?j ?b ?m). snd r"
    by (simp add: rule_predicates_def)
  with Suggestions_priority [of ?j ?b ?m] f
  show "map rule_number (Suggestions ?j ?b ?m) = [1, 2, 4, 8]"
    by simp
qed

lemma set_js_insert: "set (js_insert cmp x ys) = insert x (set ys)"
  by (induction ys) auto

lemma set_js_sort: "set (js_sort cmp xs) = set xs"
  by (induction xs) (simp_all add: js_sort_def set_js_insert)

lemma stats_topUpdaters_named:
  assumes "stats cs b p = Some st"
  shows "\<forall>e\<in>set (topUpdaters st). named e"
proof
  fix e assume e: "e \<in> set (topUpdaters st)"
  from assms obtain xs where "topUpdaters st = take 8 (js_sort (\<lambda>a b. of_nat (snd b) - of_nat (snd a)) (filter named xs))"
    by (auto simp: stats_def Let_def split: if_splits option.splits)
  with e have "e \<in> set (js_sort (\<lambda>a b. of_nat (snd b) - of_nat (snd a)) (filter named xs))"
    by (metis in_set_takeD)
  then show "named e" by (simp add: set_js_sort)
qed

text \<open>
  C10. Whatever the commits, the budgets and the live metrics, the suggestions computed
  from the statistics of the aggregation never hold the ``Anonymous updaters'' message:
  no entry of the top-render-count ranking has the name \<open>(anonymous)\<close> (or the empty
  name), since the ranking filters such entries out before it is sorted and cut.
\<close>

theorem anonymous_rule_never_fires:
  assumes "commits \<noteq> []"
  shows "\<exists>st. stats commits budget prof = Some st
           \<and> (\<forall>e\<in>set (topUpdaters st). fst e \<noteq> ''(anonymous)'' \<and> fst e \<noteq> [])
           \<and> (\<forall>budget' metrics. AnonymousUpdaters \<notin> set (Suggestions st budget' metrics))"
proof -
  from assms obtain st where st: "stats commits budget prof = Some st"
    using stats_Some by blast
  have t: "\<forall>e\<in>set (topUpdaters st). fst e \<noteq> ''(anonymous)'' \<and> fst e \<noteq> []"
    using stats_topUpdaters_named [OF st] by (simp add: named_def)
  then have "\<not> list_ex (\<lambda>e. fst e = ''(anonymous)'') (topUpdaters st)"
    by (simp add: list_ex_iff)
  then have "AnonymousUpdaters \<notin> set (Suggestions st budget' metrics)" for budget' metrics
    by (simp add: Suggestions_fallback rule_items_Anonymous)
  with st t show ?thesis by blast
qed

theorem anonymous_rule_never_fires_witness:
  "\<exists>st. stats [\<lparr>timestamp = None, duration = 20, effectDuration = None,
                 passiveEffectDuration = None, priority = None,
                 updaters = Some [\<lparr>displayName = None\<rparr>, \<lparr>displayName = Some ''Foo''\<rparr>]\<rparr>]
          (167 / 10) None = Some st
        \<and> topUpdaters st = [(''Foo'', 1)]
        \<and> AnonymousUpdaters \<notin> set (Suggestions st (167 / 10) None)"
  (is "\<exists>st. stats ?cs ?b ?p = Some st \<and> _ \<and> _")
proof -
  have ne: "?cs \<noteq> []" by simp
  from anonymous_rule_never_fires [OF ne, of ?b ?p]
  obtain st where st: "stats ?cs ?b ?p = Some st"
    and a: "AnonymousUpdaters \<notin> set (Suggestions st (167 / 10) None)"
    by blast
  have "map_option topUpdaters (stats ?cs ?b ?p) = Some [(''Foo'', 1)]"
    by code_simp
  with st have "topUpdaters st = [(''Foo'', 1)]" by simp
  with st a show ?thesis by blast
qed

end
